theory Spec2Isabelle
  imports Main
begin

section \<open>JavaScript strings\<close>

text \<open>
  Source strings are modelled as \<^typ>\<open>string\<close>: a list of code units, here the code
  units below 256. The two Unicode line separators U+2028 and U+2029, which the regular
  expression atom \<^verbatim>\<open>.\<close> also refuses, lie outside this alphabet.
\<close>

fun startsWith :: "string \<Rightarrow> string \<Rightarrow> bool" where
  "startsWith s [] = True"
| "startsWith [] (p # ps) = False"
| "startsWith (c # cs) (p # ps) = (c = p \<and> startsWith cs ps)"

text \<open>\<^verbatim>\<open>s.split('\n')\<close>: always at least one piece; the pieces hold no line feed.\<close>

fun split_nl :: "string \<Rightarrow> string list" where
  "split_nl [] = [[]]"
| "split_nl (c # cs) =
     (if c = CHR 0x0A then [] # split_nl cs
      else (case split_nl cs of [] \<Rightarrow> [[c]] | l # ls \<Rightarrow> (c # l) # ls))"

definition substring1 :: "string \<Rightarrow> string" where
  "substring1 s = drop 1 s"

definition isDigit :: "char \<Rightarrow> bool" where
  "isDigit c = (c \<in> set ''0123456789'')"

definition isLineTerminator :: "char \<Rightarrow> bool" where
  "isLineTerminator c = (c = CHR 0x0A \<or> c = CHR 0x0D)"

definition digitVal :: "char \<Rightarrow> nat" where
  "digitVal c = of_char c - 48"

text \<open>
  \<^verbatim>\<open>parseInt(s, 10)\<close> on a non-empty string of decimal digits. The source holds the
  result in a double, which is exact up to \<open>2^53\<close>; the model keeps the exact natural.
\<close>

definition parseInt :: "string \<Rightarrow> nat" where
  "parseInt s = foldl (\<lambda>n c. 10 * n + digitVal c) 0 s"

section \<open>The diff model\<close>

datatype ChangeType = Add | Delete | Modify | Rename

datatype LineType = Context | Added | Removed

record DiffLine =
  ltype :: LineType
  content :: string

record DiffHunk =
  oldStart :: nat
  oldLines :: nat
  newStart :: nat
  newLines :: nat
  lines :: "DiffLine list"

text \<open>
  A file record whose \<open>hunks\<close> array holds elements of type \<open>'h\<close>: hunk values in a
  returned \<open>DiffFile\<close>, hunk addresses while the parser still mutates the objects.
\<close>

record 'h DiffFileOf =
  path :: string
  oldPath :: "string option"
  changeType :: ChangeType
  addedLines :: nat
  removedLines :: nat
  hunks :: "'h list"

type_synonym DiffFile = "DiffHunk DiffFileOf"

section \<open>parseDiff\<close>

subsection \<open>The two header patterns\<close>

text \<open>
  \<^verbatim>\<open>/^diff --git a\/(.+?) b\/(.+?)$/\<close>. Both groups are runs of characters other than
  line terminators, and the second one reaches the end of the line, so the rest of the
  line after \<^verbatim>\<open>diff --git a/\<close> holds no line terminator. The first group is lazy: it
  is the shortest non-empty prefix that is followed by \<^verbatim>\<open> b/\<close> and one more
  character at least. \<open>lazyPaths acc s\<close> has consumed \<open>acc\<close> into the first group and
  extends it by one character at a time.
\<close>

fun lazyPaths :: "string \<Rightarrow> string \<Rightarrow> (string \<times> string) option" where
  "lazyPaths acc [] = None"
| "lazyPaths acc (c # cs) =
     (if startsWith cs '' b/'' \<and> drop 3 cs \<noteq> [] then Some (acc @ [c], drop 3 cs)
      else lazyPaths (acc @ [c]) cs)"

definition matchFileHeader :: "string \<Rightarrow> (string \<times> string) option" where
  "matchFileHeader line =
     (if startsWith line ''diff --git a/'' \<and> \<not> list_ex isLineTerminator (drop 13 line)
      then lazyPaths [] (drop 13 line) else None)"

text \<open>
  \<^verbatim>\<open>/^@@ -(\d+)(?:,(\d+))? \+(\d+)(?:,(\d+))? @@/\<close>. \<open>matchRange\<close> reads
  \<^verbatim>\<open>(\d+)(?:,(\d+))?\<close>: the digits are greedy and what follows a run of digits in the
  pattern is never a digit, so no shorter run can match. It returns the first number,
  the second one when the optional group took part, and the rest of the line.
\<close>

definition matchRange :: "string \<Rightarrow> (string \<times> string option \<times> string) option" where
  "matchRange s =
     (let d1 = takeWhile isDigit s; r1 = dropWhile isDigit s in
      if d1 = [] then None
      else (case r1 of
              c # r2 \<Rightarrow>
                (if c = CHR '','' \<and> takeWhile isDigit r2 \<noteq> []
                 then Some (d1, Some (takeWhile isDigit r2), dropWhile isDigit r2)
                 else Some (d1, None, r1))
            | [] \<Rightarrow> Some (d1, None, r1)))"

definition matchHunkHeader ::
  "string \<Rightarrow> (string \<times> string option \<times> string \<times> string option) option" where
  "matchHunkHeader line =
     (if startsWith line ''@@ -'' then
        (case matchRange (drop 4 line) of
           None \<Rightarrow> None
         | Some (g1, g2, r1) \<Rightarrow>
             (if startsWith r1 '' +'' then
                (case matchRange (drop 2 r1) of
                   None \<Rightarrow> None
                 | Some (g3, g4, r2) \<Rightarrow>
                     (if startsWith r2 '' @@'' then Some (g1, g2, g3, g4) else None))
              else None))
      else None)"

subsection \<open>The parser's objects\<close>

text \<open>
  The parser builds file and hunk objects and keeps mutating them after it has pushed
  them into an array, so the objects live in two stores and the arrays hold addresses
  (indices into the stores). \<open>files\<close>, \<open>currentFile\<close> and \<open>currentHunk\<close> are the
  local variables of the source.
\<close>

record ParseState =
  fileStore :: "nat DiffFileOf list"
  hunkStore :: "DiffHunk list"
  files :: "nat list"
  currentFile :: "nat option"
  currentHunk :: "nat option"

definition initState :: ParseState where
  "initState = \<lparr>fileStore = [], hunkStore = [], files = [], currentFile = None,
                 currentHunk = None\<rparr>"

text \<open>\<^verbatim>\<open>currentFile.hunks.push(currentHunk)\<close>\<close>

definition pushHunk :: "nat \<Rightarrow> nat \<Rightarrow> ParseState \<Rightarrow> ParseState" where
  "pushHunk f h s =
     s\<lparr>fileStore := (fileStore s)[f := (fileStore s ! f)\<lparr>hunks := hunks (fileStore s ! f) @ [h]\<rparr>]\<rparr>"

text \<open>\<^verbatim>\<open>currentHunk.lines.push({type, content})\<close>\<close>

definition pushLine :: "nat \<Rightarrow> LineType \<Rightarrow> string \<Rightarrow> ParseState \<Rightarrow> ParseState" where
  "pushLine h t c s =
     s\<lparr>hunkStore := (hunkStore s)[h := (hunkStore s ! h)
          \<lparr>lines := lines (hunkStore s ! h) @ [\<lparr>ltype = t, content = c\<rparr>]\<rparr>]\<rparr>"

definition setChangeType :: "ChangeType \<Rightarrow> ParseState \<Rightarrow> ParseState" where
  "setChangeType t s =
     (case currentFile s of
        None \<Rightarrow> s
      | Some f \<Rightarrow> s\<lparr>fileStore := (fileStore s)[f := (fileStore s ! f)\<lparr>changeType := t\<rparr>]\<rparr>)"

text \<open>The branch of the loop body for a line that starts with \<^verbatim>\<open>diff --git\<close>.\<close>

definition fileHeader :: "string \<Rightarrow> ParseState \<Rightarrow> ParseState" where
  "fileHeader line s =
     (let s1 = (case (currentFile s, currentHunk s) of
                  (Some f, Some h) \<Rightarrow> (pushHunk f h s)\<lparr>files := files s @ [f]\<rparr>
                | _ \<Rightarrow> s)
      in case matchFileHeader line of
           None \<Rightarrow> s1
         | Some (old, new) \<Rightarrow>
             (let ct = (if old = ''/dev/null'' \<or> old = ''a'' then Add
                        else if new = ''/dev/null'' \<or> new = ''b'' then Delete
                        else if old \<noteq> new then Rename
                        else Modify)
              in s1\<lparr>fileStore := fileStore s1 @
                      [\<lparr>path = (if ct = Delete then old else new),
                        oldPath = (if old \<noteq> new \<and> ct \<noteq> Add \<and> ct \<noteq> Delete
                                   then Some old else None),
                        changeType = ct, addedLines = 0, removedLines = 0, hunks = []\<rparr>],
                    currentFile := Some (length (fileStore s1)),
                    currentHunk := None\<rparr>))"

text \<open>The branch for a line that starts with \<^verbatim>\<open>@@\<close>.\<close>

definition hunkHeader :: "string \<Rightarrow> ParseState \<Rightarrow> ParseState" where
  "hunkHeader line s =
     (let s1 = (case (currentHunk s, currentFile s) of
                  (Some h, Some f) \<Rightarrow> pushHunk f h s
                | _ \<Rightarrow> s)
      in case (matchHunkHeader line, currentFile s1) of
           (Some (g1, g2, g3, g4), Some f) \<Rightarrow>
             s1\<lparr>hunkStore := hunkStore s1 @
                   [\<lparr>oldStart = parseInt g1,
                     oldLines = (case g2 of Some g \<Rightarrow> parseInt g | None \<Rightarrow> 0),
                     newStart = parseInt g3,
                     newLines = (case g4 of Some g \<Rightarrow> parseInt g | None \<Rightarrow> 0),
                     lines = []\<rparr>],
                 currentHunk := Some (length (hunkStore s1))\<rparr>
         | _ \<Rightarrow> s1)"

text \<open>The last branch: a content line.\<close>

definition contentLine :: "string \<Rightarrow> ParseState \<Rightarrow> ParseState" where
  "contentLine line s =
     (case (currentHunk s, currentFile s) of
        (Some h, Some f) \<Rightarrow>
          (if startsWith line ''+'' \<and> \<not> startsWith line ''+++'' then
             (let s1 = pushLine h Added (substring1 line) s in
              s1\<lparr>fileStore := (fileStore s1)[f := (fileStore s1 ! f)
                    \<lparr>addedLines := addedLines (fileStore s1 ! f) + 1\<rparr>]\<rparr>)
           else if startsWith line ''-'' \<and> \<not> startsWith line ''---'' then
             (let s1 = pushLine h Removed (substring1 line) s in
              s1\<lparr>fileStore := (fileStore s1)[f := (fileStore s1 ! f)
                    \<lparr>removedLines := removedLines (fileStore s1 ! f) + 1\<rparr>]\<rparr>)
           else if startsWith line '' '' then pushLine h Context (substring1 line) s
           else s)
      | _ \<Rightarrow> s)"

text \<open>One iteration of the \<^verbatim>\<open>while\<close> loop, without the increment of \<open>i\<close>.\<close>

definition parseLine :: "string \<Rightarrow> ParseState \<Rightarrow> ParseState" where
  "parseLine line s =
     (if startsWith line ''diff --git'' then fileHeader line s
      else if startsWith line ''index '' then s
      else if startsWith line ''new file mode'' then setChangeType Add s
      else if startsWith line ''deleted file mode'' then setChangeType Delete s
      else if startsWith line ''rename from'' then s
      else if startsWith line ''rename to'' then s
      else if startsWith line ''@@'' then hunkHeader line s
      else contentLine line s)"

function parseLoop :: "string list \<Rightarrow> nat \<Rightarrow> ParseState \<Rightarrow> ParseState" where
  "parseLoop ls i s = (if i < length ls then parseLoop ls (i + 1) (parseLine (ls ! i) s) else s)"
  by pat_completeness auto
termination
  by (relation "measure (\<lambda>(ls, i, s). length ls - i)") auto

declare parseLoop.simps [simp del]

text \<open>After the loop: the last hunk and the last file are saved.\<close>

definition saveLast :: "ParseState \<Rightarrow> ParseState" where
  "saveLast s =
     (let s1 = (case (currentHunk s, currentFile s) of
                  (Some h, Some f) \<Rightarrow> pushHunk f h s
                | _ \<Rightarrow> s)
      in case currentFile s1 of
           Some f \<Rightarrow> s1\<lparr>files := files s1 @ [f]\<rparr>
         | None \<Rightarrow> s1)"

text \<open>The returned array, read through the stores as the caller sees it.\<close>

definition readFile :: "ParseState \<Rightarrow> nat \<Rightarrow> DiffFile" where
  "readFile s f =
     (let fo = fileStore s ! f in
      \<lparr>path = path fo, oldPath = oldPath fo, changeType = changeType fo,
       addedLines = addedLines fo, removedLines = removedLines fo,
       hunks = map (\<lambda>h. hunkStore s ! h) (hunks fo)\<rparr>)"

definition parseDiff :: "string \<Rightarrow> DiffFile list" where
  "parseDiff diffText =
     (let s = saveLast (parseLoop (split_nl diffText) 0 initState)
      in map (readFile s) (files s))"

text \<open>
  Every address held by the local variables, by \<open>files\<close> and by the \<open>hunks\<close> arrays
  is allocated in its store.
\<close>

definition validState :: "ParseState \<Rightarrow> bool" where
  "validState s =
     ((case currentFile s of Some f \<Rightarrow> f < length (fileStore s) | None \<Rightarrow> True)
      \<and> (case currentHunk s of Some h \<Rightarrow> h < length (hunkStore s) | None \<Rightarrow> True)
      \<and> list_all (\<lambda>f. f < length (fileStore s)) (files s)
      \<and> list_all (\<lambda>fo. list_all (\<lambda>h. h < length (hunkStore s)) (hunks fo)) (fileStore s))"

text \<open>The number of lines of one kind over all entries of a file's \<open>hunks\<close> array.\<close>

definition countLines :: "LineType \<Rightarrow> DiffFile \<Rightarrow> nat" where
  "countLines t f = length (filter (\<lambda>l. ltype l = t) (concat (map lines (hunks f))))"

section \<open>The rule catalogue\<close>

datatype Severity = Allow | Warn | Block

type_synonym Decision = Severity

datatype PathMatchType = Include | Exclude

datatype LineMatchType = MatchAdded | MatchRemoved | MatchBoth

text \<open>
  A document value, as \<^verbatim>\<open>JSON.parse\<close> returns it and as a custom rule's \<open>config\<close>
  holds it. Numbers are restricted to integers; an object lists its properties, each
  key once.
\<close>

datatype json =
    JNull
  | JBool bool
  | JNumber int
  | JString string
  | JArray "json list"
  | JObject "(string \<times> json) list"

text \<open>
  The \<open>type\<close> discriminator of a rule together with the fields of that variant.
  Thresholds are integers (the source's \<open>number\<close> restricted to the integers).
\<close>

datatype RuleKind =
    SensitiveFile "string list"
  | LargeChange int
  | SuspiciousKeywords "string list"
  | PotentialSecret "string list"
  | LargeMigration int "string list"
  | PathPattern string PathMatchType
  | LinePattern string LineMatchType
  | FileSize int
  | Custom string "(string \<times> json) list"

record Rule =
  rule_id :: string
  rule_name :: string
  description :: "string option"
  enabled :: bool
  severity :: Severity
  kind :: RuleKind

record RuleViolation =
  vrule :: string
  vfile :: string
  vseverity :: Severity
  vmessage :: string

record RuleResult =
  decision :: Decision
  violations :: "RuleViolation list"

record Policy =
  policy_id :: string
  policy_name :: string
  policy_description :: "string option"
  version :: string
  rules :: "Rule list"
  createdAt :: "string option"
  updatedAt :: "string option"

datatype error = SyntaxError string | TypeError | Error string

section \<open>The evaluator\<close>

text \<open>
  \<^verbatim>\<open>new RegExp(p, 'i')\<close> is the engine's, not the repository's: it is a parameter.
  \<open>rx p\<close> is \<open>None\<close> when the constructor throws its SyntaxError on the pattern
  \<open>p\<close>, and otherwise the answer of \<^verbatim>\<open>test\<close> on the compiled expression (the flag
  \<^verbatim>\<open>g\<close> is not set, so \<^verbatim>\<open>test\<close> keeps no state between calls).
\<close>

type_synonym RegExpCtor = "string \<Rightarrow> (string \<Rightarrow> bool) option"

text \<open>\<^verbatim>\<open>patterns.map(p => new RegExp(p, 'i'))\<close>: the first pattern that fails throws.\<close>

fun compileAll :: "RegExpCtor \<Rightarrow> string list \<Rightarrow> error + (string \<Rightarrow> bool) list" where
  "compileAll rx [] = Inr []"
| "compileAll rx (p # ps) =
     (case rx p of
        None \<Rightarrow> Inl (SyntaxError p)
      | Some t \<Rightarrow> (case compileAll rx ps of Inl e \<Rightarrow> Inl e | Inr ts \<Rightarrow> Inr (t # ts)))"

text \<open>\<^verbatim>\<open>String.prototype.toLowerCase\<close> on the code units below 256.\<close>

definition lowerChar :: "char \<Rightarrow> char" where
  "lowerChar c =
     (let n = (of_char c :: nat) in
      if (65 \<le> n \<and> n \<le> 90) \<or> (192 \<le> n \<and> n \<le> 222 \<and> n \<noteq> 215) then char_of (n + 32) else c)"

definition toLowerCase :: "string \<Rightarrow> string" where
  "toLowerCase s = map lowerChar s"

fun includesStr :: "string \<Rightarrow> string \<Rightarrow> bool" where
  "includesStr [] k = (k = [])"
| "includesStr (c # cs) k = (startsWith (c # cs) k \<or> includesStr cs k)"

fun join :: "string \<Rightarrow> string list \<Rightarrow> string" where
  "join sep [] = []"
| "join sep [x] = x"
| "join sep (x # y # ys) = x @ sep @ join sep (y # ys)"

text \<open>A number inside a template literal: decimal digits, with a sign when negative.\<close>

function showNat :: "nat \<Rightarrow> string" where
  "showNat n = (if n < 10 then [char_of (48 + n)] else showNat (n div 10) @ [char_of (48 + n mod 10)])"
  by pat_completeness auto
termination
  by (relation "measure id") auto

declare showNat.simps [simp del]

definition showInt :: "int \<Rightarrow> string" where
  "showInt i = (if i < 0 then CHR ''-'' # showNat (nat (- i)) else showNat (nat i))"

text \<open>\<^verbatim>\<open>rule.description || fallback\<close>: a missing or empty description is falsy.\<close>

definition orElse :: "string option \<Rightarrow> string \<Rightarrow> string" where
  "orElse d fallback = (case d of None \<Rightarrow> fallback | Some x \<Rightarrow> if x = [] then fallback else x)"

definition violation :: "Rule \<Rightarrow> DiffFile \<Rightarrow> string \<Rightarrow> RuleViolation" where
  "violation r f fallback =
     \<lparr>vrule = rule_id r, vfile = path f, vseverity = severity r,
      vmessage = orElse (description r) fallback\<rparr>"

text \<open>\<^verbatim>\<open>s.substring(0, 50) + (s.length > 50 ? '...' : '')\<close>\<close>

definition preview :: "string \<Rightarrow> string" where
  "preview s = take 50 s @ (if length s > 50 then ''...'' else [])"

definition allLines :: "DiffFile \<Rightarrow> DiffLine list" where
  "allLines f = concat (map lines (hunks f))"

definition addedContent :: "DiffFile \<Rightarrow> string list" where
  "addedContent f = map content (filter (\<lambda>l. ltype l = Added) (allLines f))"

definition evaluateSensitiveFileRule ::
  "RegExpCtor \<Rightarrow> Rule \<Rightarrow> DiffFile \<Rightarrow> error + RuleViolation list" where
  "evaluateSensitiveFileRule rx r f =
     (case kind r of
        SensitiveFile patterns \<Rightarrow>
          (case compileAll rx patterns of
             Inl e \<Rightarrow> Inl e
           | Inr ts \<Rightarrow>
               Inr (if list_ex (\<lambda>t. t (path f)) ts
                    then [violation r f ''Modification of sensitive file detected'']
                    else []))
      | _ \<Rightarrow> Inr [])"

definition evaluateLargeChangeRule :: "Rule \<Rightarrow> DiffFile \<Rightarrow> RuleViolation list" where
  "evaluateLargeChangeRule r f =
     (case kind r of
        LargeChange threshold \<Rightarrow>
          (let totalChanges = addedLines f + removedLines f in
           if int totalChanges > threshold
           then [violation r f (''Large change detected: '' @ showNat totalChanges @
                   '' lines modified (threshold: '' @ showInt threshold @ '')'')]
           else [])
      | _ \<Rightarrow> [])"

definition evaluateSuspiciousKeywordsRule :: "Rule \<Rightarrow> DiffFile \<Rightarrow> RuleViolation list" where
  "evaluateSuspiciousKeywordsRule r f =
     (case kind r of
        SuspiciousKeywords keywords \<Rightarrow>
          (let lowered = map toLowerCase (addedContent f);
               found = filter (\<lambda>keyword. list_ex (\<lambda>c. includesStr c (toLowerCase keyword)) lowered)
                         keywords
           in if length found > 0
              then [violation r f (''Suspicious keywords found: '' @ join '', '' found)]
              else [])
      | _ \<Rightarrow> [])"

definition evaluatePotentialSecretRule ::
  "RegExpCtor \<Rightarrow> Rule \<Rightarrow> DiffFile \<Rightarrow> error + RuleViolation list" where
  "evaluatePotentialSecretRule rx r f =
     (case kind r of
        PotentialSecret patterns \<Rightarrow>
          (case compileAll rx patterns of
             Inl e \<Rightarrow> Inl e
           | Inr ts \<Rightarrow>
               (let found = map preview
                              (filter (\<lambda>line. list_ex (\<lambda>t. t line) ts) (addedContent f))
                in Inr (if length found > 0
                        then [violation r f (''Potential secrets detected: '' @
                                showNat (length found) @ '' occurrence(s)'')]
                        else [])))
      | _ \<Rightarrow> Inr [])"

definition evaluateLargeMigrationRule ::
  "RegExpCtor \<Rightarrow> Rule \<Rightarrow> DiffFile \<Rightarrow> error + RuleViolation list" where
  "evaluateLargeMigrationRule rx r f =
     (case kind r of
        LargeMigration threshold migrationPatterns \<Rightarrow>
          (case compileAll rx migrationPatterns of
             Inl e \<Rightarrow> Inl e
           | Inr ts \<Rightarrow>
               (let totalChanges = addedLines f + removedLines f in
                Inr (if list_ex (\<lambda>t. t (path f)) ts \<and> int totalChanges > threshold
                     then [violation r f (''Large database migration detected: '' @
                             showNat totalChanges @ '' lines (threshold: '' @
                             showInt threshold @ '')'')]
                     else [])))
      | _ \<Rightarrow> Inr [])"

definition evaluatePathPatternRule ::
  "RegExpCtor \<Rightarrow> Rule \<Rightarrow> DiffFile \<Rightarrow> error + RuleViolation list" where
  "evaluatePathPatternRule rx r f =
     (case kind r of
        PathPattern pattern matchType \<Rightarrow>
          (case rx pattern of
             None \<Rightarrow> Inl (SyntaxError pattern)
           | Some t \<Rightarrow>
               (let matches = t (path f) in
                Inr (if (matchType = Include \<and> matches) \<or> (matchType = Exclude \<and> \<not> matches)
                     then [violation r f (''File path matches pattern: '' @ pattern)]
                     else [])))
      | _ \<Rightarrow> Inr [])"

definition evaluateLinePatternRule ::
  "RegExpCtor \<Rightarrow> Rule \<Rightarrow> DiffFile \<Rightarrow> error + RuleViolation list" where
  "evaluateLinePatternRule rx r f =
     (case kind r of
        LinePattern pattern matchType \<Rightarrow>
          (case rx pattern of
             None \<Rightarrow> Inl (SyntaxError pattern)
           | Some t \<Rightarrow>
               (let linesToCheck =
                      filter (\<lambda>line. if matchType = MatchAdded then ltype line = Added
                                      else if matchType = MatchRemoved then ltype line = Removed
                                      else True)
                        (allLines f);
                    found = map (\<lambda>line. preview (content line))
                              (filter (\<lambda>line. t (content line)) linesToCheck)
                in Inr (if length found > 0
                        then [violation r f (''Line pattern matched: '' @
                                showNat (length found) @ '' occurrence(s)'')]
                        else [])))
      | _ \<Rightarrow> Inr [])"

definition evaluateFileSizeRule :: "Rule \<Rightarrow> DiffFile \<Rightarrow> RuleViolation list" where
  "evaluateFileSizeRule r f =
     (case kind r of
        FileSize maxSize \<Rightarrow>
          (let fileSize = foldl (\<lambda>size line. size + length line + 1) 0 (addedContent f) in
           if int fileSize > maxSize
           then [violation r f (''File size exceeds limit: '' @ showNat fileSize @
                   '' bytes (max: '' @ showInt maxSize @ '' bytes)'')]
           else [])
      | _ \<Rightarrow> [])"

definition evaluateRule :: "RegExpCtor \<Rightarrow> Rule \<Rightarrow> DiffFile \<Rightarrow> error + RuleViolation list" where
  "evaluateRule rx r f =
     (if \<not> enabled r then Inr []
      else (case kind r of
              SensitiveFile _ \<Rightarrow> evaluateSensitiveFileRule rx r f
            | LargeChange _ \<Rightarrow> Inr (evaluateLargeChangeRule r f)
            | SuspiciousKeywords _ \<Rightarrow> Inr (evaluateSuspiciousKeywordsRule r f)
            | PotentialSecret _ \<Rightarrow> evaluatePotentialSecretRule rx r f
            | LargeMigration _ _ \<Rightarrow> evaluateLargeMigrationRule rx r f
            | PathPattern _ _ \<Rightarrow> evaluatePathPatternRule rx r f
            | LinePattern _ _ \<Rightarrow> evaluateLinePatternRule rx r f
            | FileSize _ \<Rightarrow> Inr (evaluateFileSizeRule r f)
            | Custom _ _ \<Rightarrow> Inr []))"

text \<open>
  The two nested \<^verbatim>\<open>for\<close> loops of \<open>evaluateRules\<close>, with the array \<open>violations\<close>
  they push into as accumulator. An exception leaves both loops.
\<close>

fun rulesLoop ::
  "RegExpCtor \<Rightarrow> DiffFile \<Rightarrow> Rule list \<Rightarrow> RuleViolation list \<Rightarrow> error + RuleViolation list" where
  "rulesLoop rx f [] acc = Inr acc"
| "rulesLoop rx f (r # rs) acc =
     (case evaluateRule rx r f of
        Inl e \<Rightarrow> Inl e
      | Inr fileViolations \<Rightarrow> rulesLoop rx f rs (acc @ fileViolations))"

fun filesLoop ::
  "RegExpCtor \<Rightarrow> DiffFile list \<Rightarrow> Rule list \<Rightarrow> RuleViolation list \<Rightarrow> error + RuleViolation list" where
  "filesLoop rx [] rs acc = Inr acc"
| "filesLoop rx (f # fs) rs acc =
     (case rulesLoop rx f rs acc of
        Inl e \<Rightarrow> Inl e
      | Inr acc' \<Rightarrow> filesLoop rx fs rs acc')"

definition decide :: "RuleViolation list \<Rightarrow> Decision" where
  "decide vs =
     (let hasBlock = list_ex (\<lambda>v. vseverity v = Block) vs;
          hasWarn = list_ex (\<lambda>v. vseverity v = Warn) vs
      in if hasBlock then Block else if hasWarn then Warn else Allow)"

definition evaluateRules :: "RegExpCtor \<Rightarrow> DiffFile list \<Rightarrow> Rule list \<Rightarrow> error + RuleResult" where
  "evaluateRules rx diffFiles rs =
     (case filesLoop rx diffFiles rs [] of
        Inl e \<Rightarrow> Inl e
      | Inr vs \<Rightarrow> Inr \<lparr>decision = decide vs, violations = vs\<rparr>)"

section \<open>Policies\<close>

definition defaultRules :: "Rule list" where
  "defaultRules =
     [\<lparr>rule_id = ''sensitive-file-default'',
       rule_name = ''Sensitive File Detection'',
       description = Some ''Blocks modification of sensitive files like .env, .key, secrets files'',
       enabled = True, severity = Block,
       kind = SensitiveFile
         [[CHR 0x5C] @ ''.env$'',
          [CHR 0x5C] @ ''.env'' @ [CHR 0x5C] @ ''.'',
          ''secrets?'' @ [CHR 0x5C] @ ''.(json|yaml|yml|toml)$'',
          ''config/secrets?'',
          [CHR 0x5C] @ ''.pem$'',
          [CHR 0x5C] @ ''.key$'',
          [CHR 0x5C] @ ''.p12$'',
          [CHR 0x5C] @ ''.pfx$'',
          ''id_rsa$'',
          ''id_dsa$'',
          [CHR 0x5C] @ ''.credentials$'',
          [CHR 0x5C] @ ''.aws$'',
          [CHR 0x5C] @ ''.gcp$'',
          [CHR 0x5C] @ ''.azure$'']\<rparr>,
      \<lparr>rule_id = ''large-change-default'',
       rule_name = ''Large Change Warning'',
       description = Some ''Warns on changes larger than 1000 lines of code'',
       enabled = True, severity = Warn,
       kind = LargeChange 1000\<rparr>,
      \<lparr>rule_id = ''suspicious-keywords-default'',
       rule_name = ''Suspicious Keywords Detection'',
       description = Some ''Warns on potentially dangerous code patterns'',
       enabled = True, severity = Warn,
       kind = SuspiciousKeywords
         [''eval('',
          ''exec('',
          ''dangerouslySetInnerHTML'',
          ''innerHTML'',
          ''document.write'',
          ''Function('',
          ''setTimeout('',
          ''setInterval('',
          ''XMLHttpRequest'',
          ''fetch('',
          ''localStorage'',
          ''sessionStorage'',
          ''cookie'',
          ''document.cookie'']\<rparr>,
      \<lparr>rule_id = ''potential-secret-default'',
       rule_name = ''Potential Secret Detection'',
       description = Some ''Blocks potential secrets like API keys, passwords, tokens'',
       enabled = True, severity = Block,
       kind = PotentialSecret
         [''(?:api[_-]?key|apikey)'' @ [CHR 0x5C] @ ''s*[=:]'' @ [CHR 0x5C] @ ''s*['' @
            [CHR 0x27, CHR 0x22] @ '']?[a-zA-Z0-9_-]{20,}['' @ [CHR 0x27, CHR 0x22] @ '']?'',
          ''(?:secret|password|passwd|pwd)'' @ [CHR 0x5C] @ ''s*[=:]'' @ [CHR 0x5C] @ ''s*['' @
            [CHR 0x27, CHR 0x22] @ '']?[a-zA-Z0-9_-]{12,}['' @ [CHR 0x27, CHR 0x22] @ '']?'',
          ''(?:token|bearer)'' @ [CHR 0x5C] @ ''s+[a-zA-Z0-9_-]{20,}'',
          ''(?:aws[_-]?access[_-]?key[_-]?id|aws[_-]?secret[_-]?access[_-]?key)'' @
            [CHR 0x5C] @ ''s*[=:]'' @ [CHR 0x5C] @ ''s*['' @ [CHR 0x27, CHR 0x22] @
            '']?[a-zA-Z0-9_+/=]{20,}['' @ [CHR 0x27, CHR 0x22] @ '']?'',
          ''(?:private[_-]?key|privatekey)'' @ [CHR 0x5C] @ ''s*[=:]'' @ [CHR 0x5C] @ ''s*['' @
            [CHR 0x27, CHR 0x22] @ '']?-----BEGIN'',
          ''(?:mongodb|postgres|mysql|redis)://[^:]+:[^@]+@'',
          ''(?:ghp_|gho_|ghu_|ghs_|ghr_)[a-zA-Z0-9]{36}'',
          ''(?:xox[baprs]-)[a-zA-Z0-9-]{10,}'',
          ''sk_[a-zA-Z0-9]{32,}'',
          ''pk_[a-zA-Z0-9]{32,}'']\<rparr>,
      \<lparr>rule_id = ''large-migration-default'',
       rule_name = ''Large Migration Warning'',
       description = Some ''Warns on database migrations larger than 100 lines'',
       enabled = True, severity = Warn,
       kind = LargeMigration 100
         [''migrations?/.*'' @ [CHR 0x5C] @ ''.(sql|ts|js)$'',
          ''.*migration.*'' @ [CHR 0x5C] @ ''.(sql|ts|js)$'',
          ''schema'' @ [CHR 0x5C] @ ''.(sql|ts|js)$'']\<rparr>]"

text \<open>
  A value read as a condition. \<open>None\<close> is \<^verbatim>\<open>undefined\<close>, the value of a property
  the object does not have.
\<close>

fun truthy :: "json option \<Rightarrow> bool" where
  "truthy None = False"
| "truthy (Some JNull) = False"
| "truthy (Some (JBool b)) = b"
| "truthy (Some (JNumber n)) = (n \<noteq> 0)"
| "truthy (Some (JString s)) = (s \<noteq> [])"
| "truthy (Some (JArray xs)) = True"
| "truthy (Some (JObject ps)) = True"

text \<open>
  \<^verbatim>\<open>data.key\<close> on a value other than \<^verbatim>\<open>null\<close>, for one of the keys the source
  reads (\<open>id\<close>, \<open>name\<close>, \<open>version\<close>, \<open>rules\<close>): \<^verbatim>\<open>undefined\<close> on a value
  that is no object or has no such property.
\<close>

fun getProp :: "json \<Rightarrow> string \<Rightarrow> json option" where
  "getProp (JObject ps) key = map_of ps key"
| "getProp v key = None"

fun isArray :: "json option \<Rightarrow> bool" where
  "isArray (Some (JArray xs)) = True"
| "isArray v = False"

text \<open>
  \<open>loadPolicy\<close>. \<^verbatim>\<open>JSON.parse\<close> is the engine's and a parameter: \<open>parse s\<close> is
  \<open>None\<close> when it throws its SyntaxError on the text \<open>s\<close>. The argument is any value;
  a string is parsed first. Reading \<^verbatim>\<open>data.id\<close>, the first property read, throws a
  TypeError when \<open>data\<close> is \<^verbatim>\<open>null\<close>. The result is the document itself
  (\<^verbatim>\<open>data as Policy\<close> converts nothing).
\<close>

definition parseIfString :: "(string \<Rightarrow> json option) \<Rightarrow> json \<Rightarrow> error + json" where
  "parseIfString parse j =
     (case j of
        JString s \<Rightarrow> (case parse s of None \<Rightarrow> Inl (SyntaxError s) | Some d \<Rightarrow> Inr d)
      | _ \<Rightarrow> Inr j)"

definition loadPolicy :: "(string \<Rightarrow> json option) \<Rightarrow> json \<Rightarrow> error + json" where
  "loadPolicy parse j =
     (case parseIfString parse j of
        Inl e \<Rightarrow> Inl e
      | Inr data \<Rightarrow>
          if data = JNull then Inl TypeError
          else if \<not> truthy (getProp data ''id'') \<or> \<not> truthy (getProp data ''name'')
                  \<or> \<not> truthy (getProp data ''version'')
                  \<or> \<not> isArray (getProp data ''rules'')
          then Inl (Error ''Invalid policy format: missing required fields'')
          else Inr data)"

text \<open>
  \<open>createPolicy\<close>. The two readings of the clock (\<^verbatim>\<open>new Date().toISOString()\<close>) are
  parameters, in the order the source takes them; a missing \<open>version\<close> argument is
  \<open>None\<close> and defaults to \<^verbatim>\<open>1.0.0\<close>.
\<close>

definition createPolicy ::
  "string \<Rightarrow> string \<Rightarrow> string \<Rightarrow> string \<Rightarrow> Rule list \<Rightarrow> string option \<Rightarrow> string option \<Rightarrow> Policy" where
  "createPolicy t1 t2 pid name rs desc ver =
     \<lparr>policy_id = pid, policy_name = name, policy_description = desc,
      version = (case ver of None \<Rightarrow> ''1.0.0'' | Some v \<Rightarrow> v),
      rules = rs, createdAt = Some t1, updatedAt = Some t2\<rparr>"

definition createDefaultPolicy :: "string \<Rightarrow> string \<Rightarrow> string option \<Rightarrow> Policy" where
  "createDefaultPolicy t1 t2 projectId =
     createPolicy t1 t2
       (case projectId of
          None \<Rightarrow> ''default''
        | Some p \<Rightarrow> if p = [] then ''default'' else ''default-'' @ p)
       ''Default Neurcode Policy''
       defaultRules
       (Some ''Default policy with built-in security and quality rules'')
       (Some ''1.0.0'')"

text \<open>
  \<^verbatim>\<open>Map.prototype.set\<close> on a map kept as the list of its entries in insertion order:
  an existing key keeps its place and takes the new value, a new key goes to the end.
\<close>

fun mapSet :: "(string \<times> 'v) list \<Rightarrow> string \<Rightarrow> 'v \<Rightarrow> (string \<times> 'v) list" where
  "mapSet [] k v = [(k, v)]"
| "mapSet ((k', v') # m) k v = (if k' = k then (k', v) # m else (k', v') # mapSet m k v)"

definition mergeLoop :: "Policy list \<Rightarrow> (string \<times> Rule) list" where
  "mergeLoop policies =
     fold (\<lambda>policy ruleMap. fold (\<lambda>r m. mapSet m (rule_id r) r) (rules policy) ruleMap)
       policies []"

text \<open>
  \<open>mergePolicies\<close>, with the readings of the clock as parameters: the default policy
  takes two, the merged policy one.
\<close>

definition mergePolicies :: "string \<Rightarrow> string \<Rightarrow> Policy list \<Rightarrow> Policy" where
  "mergePolicies t1 t2 policies =
     (case policies of
        [] \<Rightarrow> createDefaultPolicy t1 t2 None
      | mergedPolicy # _ \<Rightarrow>
          mergedPolicy\<lparr>rules := map snd (mergeLoop policies), updatedAt := Some t1\<rparr>)"

section \<open>A regular-expression engine for the examples\<close>

text \<open>
  The examples below need one concrete engine. \<open>literalRegExp\<close> is the fragment of
  \<^verbatim>\<open>new RegExp(p, 'i')\<close> on patterns of ASCII letters and digits, which the engine
  searches as substrings ignoring case. It refuses every other pattern, as the engine
  refuses \<^verbatim>\<open>(\<close> (an unterminated group), the only other pattern the examples use.
\<close>

definition isAlnum :: "char \<Rightarrow> bool" where
  "isAlnum c =
     (let n = (of_char c :: nat) in
      (48 \<le> n \<and> n \<le> 57) \<or> (65 \<le> n \<and> n \<le> 90) \<or> (97 \<le> n \<and> n \<le> 122))"

definition literalRegExp :: RegExpCtor where
  "literalRegExp p =
     (if list_all isAlnum p then Some (\<lambda>s. includesStr (toLowerCase s) (toLowerCase p))
      else None)"

text \<open>The patterns a rule hands to the engine when it is evaluated.\<close>

definition rulePatterns :: "Rule \<Rightarrow> string list" where
  "rulePatterns r =
     (case kind r of
        SensitiveFile ps \<Rightarrow> ps
      | PotentialSecret ps \<Rightarrow> ps
      | LargeMigration _ ps \<Rightarrow> ps
      | PathPattern p _ \<Rightarrow> [p]
      | LinePattern p _ \<Rightarrow> [p]
      | _ \<Rightarrow> [])"

section \<open>Example inputs\<close>

definition sampleFile :: DiffFile where
  "sampleFile =
     \<lparr>path = ''config.js'', oldPath = None, changeType = Modify, addedLines = 2,
      removedLines = 0,
      hunks = [\<lparr>oldStart = 1, oldLines = 0, newStart = 1, newLines = 2,
                lines = [\<lparr>ltype = Added, content = ''const token = 1;''\<rparr>,
                         \<lparr>ltype = Added, content = ''const TOKEN2 = 2;''\<rparr>]\<rparr>]\<rparr>"

definition badRule :: Rule where
  "badRule =
     \<lparr>rule_id = ''bad'', rule_name = ''Bad pattern'', description = None, enabled = True,
      severity = Block, kind = SensitiveFile [''('']\<rparr>"

definition secretRule :: Rule where
  "secretRule =
     \<lparr>rule_id = ''secret'', rule_name = ''Tokens'', description = Some ''No tokens'',
      enabled = True, severity = Block, kind = PotentialSecret [''token'']\<rparr>"

definition customRule :: Rule where
  "customRule =
     \<lparr>rule_id = ''custom'', rule_name = ''Custom check'', description = None,
      enabled = True, severity = Block, kind = Custom ''myEvaluator'' []\<rparr>"

definition largeWarn :: Rule where
  "largeWarn =
     \<lparr>rule_id = ''large'', rule_name = ''Large change'', description = None,
      enabled = True, severity = Warn, kind = LargeChange 1000\<rparr>"

definition largeBlock :: Rule where
  "largeBlock =
     \<lparr>rule_id = ''large'', rule_name = ''Large change'', description = None,
      enabled = True, severity = Block, kind = LargeChange 1000\<rparr>"

definition policyA :: Policy where
  "policyA =
     \<lparr>policy_id = ''a'', policy_name = ''A'', policy_description = None, version = ''1.0.0'',
      rules = [largeWarn, secretRule], createdAt = None, updatedAt = None\<rparr>"

definition policyB :: Policy where
  "policyB =
     \<lparr>policy_id = ''b'', policy_name = ''B'', policy_description = None, version = ''2.0.0'',
      rules = [largeBlock], createdAt = None, updatedAt = None\<rparr>"

definition goodDoc :: json where
  "goodDoc =
     JObject [(''id'', JString ''p1''), (''name'', JString ''P''),
              (''version'', JString ''1.0.0''), (''rules'', JArray [])]"

definition emptyIdDoc :: json where
  "emptyIdDoc =
     JObject [(''id'', JString []), (''name'', JString ''P''),
              (''version'', JString ''1.0.0''), (''rules'', JArray [])]"

section \<open>Properties of parseDiff\<close>

lemma parseLoop_fold: "parseLoop ls i s = fold parseLine (drop i ls) s"
proof (induction ls i s rule: parseLoop.induct)
  case (1 ls i s)
  show ?case
  proof (cases "i < length ls")
    case True
    then have "drop i ls = ls ! i # drop (Suc i) ls"
      by (simp add: Cons_nth_drop_Suc)
    with True 1 show ?thesis
      by (simp add: parseLoop.simps[of ls i])
  next
    case False
    then show ?thesis
      by (simp add: parseLoop.simps[of ls i])
  qed
qed

lemma parseLine_idle:
  assumes "\<not> startsWith line ''diff --git''" and "currentFile s = None"
  shows "parseLine line s = s"
  using assms
  by (simp add: parseLine_def setChangeType_def hunkHeader_def contentLine_def
      split: option.splits prod.splits)

lemma fold_parseLine_idle:
  "\<forall>l \<in> set ls. \<not> startsWith l ''diff --git'' \<Longrightarrow> currentFile s = None
   \<Longrightarrow> fold parseLine ls s = s"
  by (induction ls) (simp_all add: parseLine_idle)

text \<open>
  The parser never reads an address that it has not allocated: \<open>validState\<close> holds
  initially and every branch of the loop body keeps it.
\<close>

lemma list_all_update:
  "list_all P xs \<Longrightarrow> P v \<Longrightarrow> list_all P (xs[i := v])"
  by (auto simp: list_all_iff dest: set_update_subset_insert [THEN subsetD])

lemma list_all_nth: "list_all P xs \<Longrightarrow> i < length xs \<Longrightarrow> P (xs ! i)"
  by (simp add: list_all_iff)

lemma list_all_mono: "list_all P xs \<Longrightarrow> (\<And>x. P x \<Longrightarrow> Q x) \<Longrightarrow> list_all Q xs"
  by (auto simp: list_all_iff)

lemma validState_init: "validState initState"
  by (simp add: validState_def initState_def)

lemma validState_pushHunk:
  assumes "validState s" "currentFile s = Some f" "currentHunk s = Some h"
  shows "validState (pushHunk f h s)"
proof -
  from assms have f: "f < length (fileStore s)" and h: "h < length (hunkStore s)"
    and fs: "list_all (\<lambda>f. f < length (fileStore s)) (files s)"
    and hs: "list_all (\<lambda>fo. list_all (\<lambda>h. h < length (hunkStore s)) (hunks fo)) (fileStore s)"
    by (simp_all add: validState_def)
  from list_all_nth [OF hs f] h
  have "list_all (\<lambda>h. h < length (hunkStore s)) (hunks (fileStore s ! f) @ [h])"
    by simp
  with hs have "list_all (\<lambda>fo. list_all (\<lambda>h. h < length (hunkStore s)) (hunks fo))
      ((fileStore s)[f := (fileStore s ! f)\<lparr>hunks := hunks (fileStore s ! f) @ [h]\<rparr>])"
    by (intro list_all_update) simp_all
  with assms fs show ?thesis
    by (simp add: validState_def pushHunk_def split: option.splits)
qed

lemma validState_setChangeType: "validState s \<Longrightarrow> validState (setChangeType t s)"
proof (cases "currentFile s")
  case None
  then show "validState s \<Longrightarrow> ?thesis" by (simp add: setChangeType_def)
next
  case (Some f)
  assume v: "validState s"
  then have f: "f < length (fileStore s)"
    and hs: "list_all (\<lambda>fo. list_all (\<lambda>h. h < length (hunkStore s)) (hunks fo)) (fileStore s)"
    using Some by (simp_all add: validState_def)
  from list_all_nth [OF hs f]
  have "list_all (\<lambda>fo. list_all (\<lambda>h. h < length (hunkStore s)) (hunks fo))
      ((fileStore s)[f := (fileStore s ! f)\<lparr>changeType := t\<rparr>])"
    using hs by (intro list_all_update) simp_all
  with v Some show ?thesis
    by (simp add: validState_def setChangeType_def split: option.splits)
qed

lemma validState_saved:
  assumes "validState s"
  shows "validState (case (currentFile s, currentHunk s) of
                       (Some f, Some h) \<Rightarrow> (pushHunk f h s)\<lparr>files := files s @ [f]\<rparr>
                     | _ \<Rightarrow> s)"
proof (cases "currentFile s")
  case None
  with assms show ?thesis by simp
next
  case f: (Some f)
  show ?thesis
  proof (cases "currentHunk s")
    case None
    with assms f show ?thesis by simp
  next
    case h: (Some h)
    from validState_pushHunk [OF assms f h] have "validState (pushHunk f h s)" .
    moreover from assms f have "f < length (fileStore s)" by (simp add: validState_def)
    ultimately have "validState ((pushHunk f h s)\<lparr>files := files s @ [f]\<rparr>)"
      using assms by (simp add: validState_def pushHunk_def split: option.splits)
    with f h show ?thesis by simp
  qed
qed

lemma validState_newFile:
  assumes "validState s" and "hunks fo = []"
  shows "validState (s\<lparr>fileStore := fileStore s @ [fo],
                        currentFile := Some (length (fileStore s)), currentHunk := None\<rparr>)"
proof -
  from assms(1) have "list_all (\<lambda>f. f < length (fileStore s)) (files s)"
    by (simp add: validState_def)
  then have "list_all (\<lambda>f. f < Suc (length (fileStore s))) (files s)"
    by (rule list_all_mono) simp
  with assms show ?thesis
    by (simp add: validState_def split: option.splits)
qed

lemma validState_fileHeader:
  assumes "validState s"
  shows "validState (fileHeader line s)"
proof -
  define s1 where "s1 = (case (currentFile s, currentHunk s) of
                           (Some f, Some h) \<Rightarrow> (pushHunk f h s)\<lparr>files := files s @ [f]\<rparr>
                         | _ \<Rightarrow> s)"
  have v1: "validState s1"
    unfolding s1_def using assms by (rule validState_saved)
  note fh = fileHeader_def [of line s, folded s1_def]
  show ?thesis
  proof (cases "matchFileHeader line")
    case None
    with v1 show ?thesis
      by (simp add: fh)
  next
    case (Some pr)
    obtain old new where pr: "pr = (old, new)" by (cases pr)
    from Some pr show ?thesis
      by (simp add: fh Let_def validState_newFile [OF v1])
  qed
qed

lemma validState_pushed:
  assumes "validState s"
  shows "validState (case (currentHunk s, currentFile s) of
                       (Some h, Some f) \<Rightarrow> pushHunk f h s
                     | _ \<Rightarrow> s)"
proof (cases "currentFile s")
  case None
  with assms show ?thesis by (simp split: option.splits)
next
  case f: (Some f)
  show ?thesis
  proof (cases "currentHunk s")
    case None
    with assms f show ?thesis by simp
  next
    case h: (Some h)
    from validState_pushHunk [OF assms f h] f h show ?thesis by simp
  qed
qed

lemma validState_newHunk:
  assumes "validState s"
  shows "validState (s\<lparr>hunkStore := hunkStore s @ [ho],
                        currentHunk := Some (length (hunkStore s))\<rparr>)"
proof -
  from assms have "list_all (\<lambda>fo. list_all (\<lambda>h. h < length (hunkStore s)) (hunks fo)) (fileStore s)"
    by (simp add: validState_def)
  then have "list_all (\<lambda>fo. list_all (\<lambda>h. h < Suc (length (hunkStore s))) (hunks fo)) (fileStore s)"
    by (rule list_all_mono) (erule list_all_mono, simp)
  with assms show ?thesis
    by (simp add: validState_def split: option.splits)
qed

lemma validState_hunkHeader:
  assumes "validState s"
  shows "validState (hunkHeader line s)"
proof -
  define s1 where "s1 = (case (currentHunk s, currentFile s) of
                           (Some h, Some f) \<Rightarrow> pushHunk f h s
                         | _ \<Rightarrow> s)"
  have v1: "validState s1"
    unfolding s1_def using assms by (rule validState_pushed)
  note hh = hunkHeader_def [of line s, folded s1_def]
  show ?thesis
    using v1 by (simp add: hh Let_def validState_newHunk [OF v1] split: option.splits prod.splits)
qed

lemma validState_pushLine:
  assumes "validState s"
  shows "validState (pushLine h t c s)"
  using assms by (simp add: validState_def pushLine_def split: option.splits)

lemma validState_count:
  assumes "validState s" and "f < length (fileStore s)" and "hunks fo = hunks (fileStore s ! f)"
  shows "validState (s\<lparr>fileStore := (fileStore s)[f := fo]\<rparr>)"
proof -
  from assms(1) have hs:
    "list_all (\<lambda>fo. list_all (\<lambda>h. h < length (hunkStore s)) (hunks fo)) (fileStore s)"
    by (simp add: validState_def)
  from list_all_nth [OF hs assms(2)] assms(3)
  have "list_all (\<lambda>fo. list_all (\<lambda>h. h < length (hunkStore s)) (hunks fo)) ((fileStore s)[f := fo])"
    using hs by (intro list_all_update) simp_all
  with assms(1) show ?thesis
    by (simp add: validState_def split: option.splits)
qed

lemma validState_contentLine:
  assumes "validState s"
  shows "validState (contentLine line s)"
proof (cases "currentHunk s")
  case None
  with assms show ?thesis by (simp add: contentLine_def)
next
  case h: (Some h)
  show ?thesis
  proof (cases "currentFile s")
    case None
    with assms h show ?thesis by (simp add: contentLine_def)
  next
    case f: (Some f)
    have vp: "validState (pushLine h t c s)" for t c
      using assms by (rule validState_pushLine)
    from assms f have fl: "f < length (fileStore (pushLine h t c s))" for t c
      by (simp add: validState_def pushLine_def)
    from h f vp assms show ?thesis
      by (simp add: contentLine_def Let_def validState_count [OF vp fl])
  qed
qed

lemma validState_parseLine: "validState s \<Longrightarrow> validState (parseLine line s)"
  by (simp add: parseLine_def validState_fileHeader validState_setChangeType
      validState_hunkHeader validState_contentLine)

lemma validState_fold: "validState s \<Longrightarrow> validState (fold parseLine ls s)"
  by (induction ls arbitrary: s) (simp_all add: validState_parseLine)

lemma validState_saveLast:
  assumes "validState s"
  shows "validState (saveLast s)"
proof -
  define s1 where "s1 = (case (currentHunk s, currentFile s) of
                           (Some h, Some f) \<Rightarrow> pushHunk f h s
                         | _ \<Rightarrow> s)"
  have v1: "validState s1"
    unfolding s1_def using assms by (rule validState_pushed)
  note sl = saveLast_def [of s, folded s1_def]
  show ?thesis
    using v1 by (auto simp: sl Let_def validState_def split: option.splits)
qed

lemma parseDiff_state_valid:
  "validState (saveLast (parseLoop (split_nl diffText) 0 initState))"
  by (simp add: parseLoop_fold validState_saveLast validState_fold validState_init)

text \<open>
  C6. \<open>parseDiff\<close> is total, and it returns the empty list on every text none of whose
  lines starts with \<^verbatim>\<open>diff --git\<close>. The source has no statement that can throw (every
  object it dereferences has just been tested), so the model has no error result, and
  every read of a store is in range (\<open>parseDiff_state_valid\<close>); the loop is the
  terminating recursion \<open>parseLoop\<close>, hence \<open>parseDiff\<close> is a total function and
  the equation below says that it returns, and what.
\<close>

theorem parseDiff_no_marker:
  assumes "\<forall>l \<in> set (split_nl diffText). \<not> startsWith l ''diff --git''"
  shows "parseDiff diffText = []"
proof -
  have "parseLoop (split_nl diffText) 0 initState = initState"
    using assms by (simp add: parseLoop_fold fold_parseLine_idle initState_def)
  then show ?thesis
    by (simp add: parseDiff_def saveLast_def initState_def)
qed

theorem parseDiff_no_marker_witness:
  "parseDiff (''some prose'' @ [CHR 0x0A] @ ''+++ more'') = []"
proof -
  have h: "\<forall>l \<in> set (split_nl (''some prose'' @ [CHR 0x0A] @ ''+++ more'')).
             \<not> startsWith l ''diff --git''"
    by simp
  show ?thesis
    by (rule parseDiff_no_marker [OF h])
qed

text \<open>
  C5. Two file headers in a row: the first file has no open hunk when the second header
  arrives, and the result holds the second file only. The first file is lost.
\<close>

theorem parseDiff_drops_file_without_hunk:
  "parseDiff (''diff --git a/x b/x'' @ [CHR 0x0A] @ ''diff --git a/y b/y'') =
     [\<lparr>path = ''y'', oldPath = None, changeType = Modify, addedLines = 0, removedLines = 0,
       hunks = []\<rparr>]"
  by code_simp

text \<open>
  C3. A malformed hunk header after an open hunk: the open hunk is pushed into the file
  at the malformed header and once more at the end of the input, so the file counts one
  added line and its \<open>hunks\<close> array holds two.
\<close>

theorem parseDiff_counts_differ:
  "map (\<lambda>f. (addedLines f, countLines Added f, length (hunks f)))
     (parseDiff (''diff --git a/x b/x'' @ [CHR 0x0A] @ ''@@ -1 +1 @@'' @ [CHR 0x0A] @
                 ''+foo'' @ [CHR 0x0A] @ ''@@ bad'')) = [(1, 2, 2)]"
  by code_simp

text \<open>
  C4. A malformed hunk header after an open hunk: the line \<^verbatim>\<open>+foo\<close> that follows it
  is recorded, in the hunk that was open before the malformed header.
\<close>

theorem parseDiff_records_after_bad_header:
  "map (\<lambda>f. map lines (hunks f))
     (parseDiff (''diff --git a/x b/x'' @ [CHR 0x0A] @ ''@@ -1 +1 @@'' @ [CHR 0x0A] @
                 ''@@ bad'' @ [CHR 0x0A] @ ''+foo'')) =
     [[[\<lparr>ltype = Added, content = ''foo''\<rparr>], [\<lparr>ltype = Added, content = ''foo''\<rparr>]]]"
  by code_simp

section \<open>Properties of the evaluator\<close>

lemma compileAll_error:
  "compileAll rx ps = Inl e \<Longrightarrow> \<exists>p \<in> set ps. e = SyntaxError p \<and> rx p = None"
  by (induction ps) (auto split: option.splits sum.splits)

lemma compileAll_invalid:
  "\<exists>p \<in> set ps. rx p = None \<Longrightarrow> \<exists>p. compileAll rx ps = Inl (SyntaxError p) \<and> rx p = None"
proof (induction ps)
  case Nil
  then show ?case by simp
next
  case (Cons q ps)
  show ?case
  proof (cases "rx q")
    case None
    then show ?thesis by auto
  next
    case (Some t)
    with Cons.prems have "\<exists>p \<in> set ps. rx p = None" by auto
    from Cons.IH [OF this] obtain p where "compileAll rx ps = Inl (SyntaxError p)" "rx p = None"
      by blast
    with Some show ?thesis by auto
  qed
qed

lemma evaluateRule_disabled: "\<not> enabled r \<Longrightarrow> evaluateRule rx r f = Inr []"
  by (simp add: evaluateRule_def)

lemma evaluateRule_invalid:
  assumes "enabled r" and "\<exists>p \<in> set (rulePatterns r). rx p = None"
  shows "\<exists>p. evaluateRule rx r f = Inl (SyntaxError p) \<and> rx p = None"
proof (cases "kind r")
  case (SensitiveFile ps)
  with assms(2) have "\<exists>p \<in> set ps. rx p = None" by (simp add: rulePatterns_def)
  from compileAll_invalid [OF this] SensitiveFile assms(1) show ?thesis
    by (auto simp: evaluateRule_def evaluateSensitiveFileRule_def)
next
  case (PotentialSecret ps)
  with assms(2) have "\<exists>p \<in> set ps. rx p = None" by (simp add: rulePatterns_def)
  from compileAll_invalid [OF this] PotentialSecret assms(1) show ?thesis
    by (auto simp: evaluateRule_def evaluatePotentialSecretRule_def)
next
  case (LargeMigration n ps)
  with assms(2) have "\<exists>p \<in> set ps. rx p = None" by (simp add: rulePatterns_def)
  from compileAll_invalid [OF this] LargeMigration assms(1) show ?thesis
    by (auto simp: evaluateRule_def evaluateLargeMigrationRule_def)
next
  case (PathPattern p m)
  with assms show ?thesis
    by (auto simp: rulePatterns_def evaluateRule_def evaluatePathPatternRule_def)
next
  case (LinePattern p m)
  with assms show ?thesis
    by (auto simp: rulePatterns_def evaluateRule_def evaluateLinePatternRule_def)
qed (use assms in \<open>simp_all add: rulePatterns_def\<close>)

lemma evaluateRule_error:
  assumes "evaluateRule rx r f = Inl e"
  shows "enabled r \<and> (\<exists>p \<in> set (rulePatterns r). e = SyntaxError p \<and> rx p = None)"
proof -
  from assms have en: "enabled r" by (auto simp: evaluateRule_def split: if_splits)
  show ?thesis
  proof (cases "kind r")
    case (SensitiveFile ps)
    with assms en have "compileAll rx ps = Inl e"
      by (auto simp: evaluateRule_def evaluateSensitiveFileRule_def split: sum.splits)
    from compileAll_error [OF this] en SensitiveFile show ?thesis by (simp add: rulePatterns_def)
  next
    case (PotentialSecret ps)
    with assms en have "compileAll rx ps = Inl e"
      by (auto simp: evaluateRule_def evaluatePotentialSecretRule_def Let_def split: sum.splits)
    from compileAll_error [OF this] en PotentialSecret show ?thesis by (simp add: rulePatterns_def)
  next
    case (LargeMigration n ps)
    with assms en have "compileAll rx ps = Inl e"
      by (auto simp: evaluateRule_def evaluateLargeMigrationRule_def Let_def split: sum.splits)
    from compileAll_error [OF this] en LargeMigration show ?thesis by (simp add: rulePatterns_def)
  next
    case (PathPattern p m)
    with assms en show ?thesis
      by (auto simp: rulePatterns_def evaluateRule_def evaluatePathPatternRule_def Let_def split: option.splits)
  next
    case (LinePattern p m)
    with assms en show ?thesis
      by (auto simp: rulePatterns_def evaluateRule_def evaluateLinePatternRule_def Let_def split: option.splits)
  qed (use assms en in \<open>simp_all add: evaluateRule_def\<close>)
qed

lemma rulesLoop_append:
  "rulesLoop rx f (rs1 @ rs2) acc =
     (case rulesLoop rx f rs1 acc of Inl e \<Rightarrow> Inl e | Inr a \<Rightarrow> rulesLoop rx f rs2 a)"
  by (induction rs1 arbitrary: acc) (auto split: sum.splits)

lemma rulesLoop_skip:
  "evaluateRule rx r f = Inr [] \<Longrightarrow>
   rulesLoop rx f (rs1 @ r # rs2) acc = rulesLoop rx f (rs1 @ rs2) acc"
  by (simp add: rulesLoop_append split: sum.splits)

lemma filesLoop_skip:
  "\<forall>f \<in> set fs. evaluateRule rx r f = Inr [] \<Longrightarrow>
   filesLoop rx fs (rs1 @ r # rs2) acc = filesLoop rx fs (rs1 @ rs2) acc"
  by (induction fs arbitrary: acc) (auto simp: rulesLoop_skip split: sum.splits)

lemma rulesLoop_error:
  "rulesLoop rx f rs acc = Inl e \<Longrightarrow>
   \<exists>r \<in> set rs. enabled r \<and> (\<exists>p \<in> set (rulePatterns r). e = SyntaxError p \<and> rx p = None)"
proof (induction rs arbitrary: acc)
  case Nil
  then show ?case by simp
next
  case (Cons r rs)
  show ?case
  proof (cases "evaluateRule rx r f")
    case (Inl e')
    with Cons.prems have "e' = e" by simp
    with Inl evaluateRule_error [of rx r f e] show ?thesis by simp
  next
    case (Inr vs)
    with Cons.prems have "rulesLoop rx f rs (acc @ vs) = Inl e" by simp
    from Cons.IH [OF this] show ?thesis by auto
  qed
qed

lemma rulesLoop_invalid:
  assumes "enabled r" and "\<exists>p \<in> set (rulePatterns r). rx p = None" and "r \<in> set rs"
  shows "\<exists>p. rulesLoop rx f rs acc = Inl (SyntaxError p) \<and> rx p = None"
  using assms(3)
proof (induction rs arbitrary: acc)
  case Nil
  then show ?case by simp
next
  case (Cons q rs)
  show ?case
  proof (cases "evaluateRule rx q f")
    case (Inl e)
    from evaluateRule_error [OF this] Inl show ?thesis by auto
  next
    case (Inr vs)
    have "q \<noteq> r"
    proof
      assume "q = r"
      with evaluateRule_invalid [OF assms(1,2), of f] Inr show False by auto
    qed
    with Cons.prems have "r \<in> set rs" by auto
    from Cons.IH [OF this, of "acc @ vs"] Inr show ?thesis by simp
  qed
qed


lemma filesLoop_error:
  "filesLoop rx fs rs acc = Inl e \<Longrightarrow>
   \<exists>r \<in> set rs. enabled r \<and> (\<exists>p \<in> set (rulePatterns r). e = SyntaxError p \<and> rx p = None)"
proof (induction fs arbitrary: acc)
  case Nil
  then show ?case by simp
next
  case (Cons f fs)
  show ?case
  proof (cases "rulesLoop rx f rs acc")
    case (Inl e')
    with Cons.prems have "e' = e" by simp
    with Inl rulesLoop_error [of rx f rs acc e] show ?thesis by simp
  next
    case (Inr a)
    with Cons.prems have "filesLoop rx fs rs a = Inl e" by simp
    from Cons.IH [OF this] show ?thesis .
  qed
qed

text \<open>
  C1, as the code has it. A rule one of whose patterns does not compile is harmless only
  while it is never evaluated: when it is disabled or the file list is empty,
  \<open>evaluateRules\<close> behaves exactly as if the rule were absent. When the rule is enabled
  and there is a file, \<open>evaluateRules\<close> returns no result: it throws the SyntaxError of
  a pattern that does not compile.
\<close>

theorem evaluateRules_invalid_pattern:
  assumes "\<exists>p \<in> set (rulePatterns r). rx p = None"
  shows "(\<not> enabled r \<or> fs = [] \<longrightarrow>
            evaluateRules rx fs (rs1 @ r # rs2) = evaluateRules rx fs (rs1 @ rs2))
         \<and> (enabled r \<and> fs \<noteq> [] \<longrightarrow>
            (\<exists>p. evaluateRules rx fs (rs1 @ r # rs2) = Inl (SyntaxError p) \<and> rx p = None))"
proof (intro conjI impI)
  assume "\<not> enabled r \<or> fs = []"
  then have "\<forall>f \<in> set fs. evaluateRule rx r f = Inr []"
    by (auto simp: evaluateRule_disabled)
  then show "evaluateRules rx fs (rs1 @ r # rs2) = evaluateRules rx fs (rs1 @ rs2)"
    by (simp add: evaluateRules_def filesLoop_skip)
next
  assume a: "enabled r \<and> fs \<noteq> []"
  then obtain f fs' where fs: "fs = f # fs'" by (cases fs) auto
  from a have en: "enabled r" by simp
  have "r \<in> set (rs1 @ r # rs2)" by simp
  from rulesLoop_invalid [OF en assms this, of f "[]"]
  obtain p where "rulesLoop rx f (rs1 @ r # rs2) [] = Inl (SyntaxError p)" and "rx p = None"
    by blast
  then show "\<exists>p. evaluateRules rx fs (rs1 @ r # rs2) = Inl (SyntaxError p) \<and> rx p = None"
    by (auto simp: evaluateRules_def fs)
qed

theorem evaluateRules_invalid_pattern_witness:
  "evaluateRules literalRegExp [sampleFile] [secretRule, badRule\<lparr>enabled := False\<rparr>] =
     evaluateRules literalRegExp [sampleFile] [secretRule]
   \<and> (\<exists>p. evaluateRules literalRegExp [sampleFile] [secretRule, badRule] = Inl (SyntaxError p)
          \<and> literalRegExp p = None)"
proof -
  have h1: "\<exists>p \<in> set (rulePatterns (badRule\<lparr>enabled := False\<rparr>)). literalRegExp p = None"
    by (simp add: rulePatterns_def badRule_def literalRegExp_def isAlnum_def)
  have h2: "\<exists>p \<in> set (rulePatterns badRule). literalRegExp p = None"
    by (simp add: rulePatterns_def badRule_def literalRegExp_def isAlnum_def)
  have e: "enabled badRule"
    by (simp add: badRule_def)
  from evaluateRules_invalid_pattern [OF h1, of "[sampleFile]" "[secretRule]" "[]"]
    evaluateRules_invalid_pattern [OF h2, of "[sampleFile]" "[secretRule]" "[]"] e
  show ?thesis by simp
qed

text \<open>
  C1 as stated fails: one enabled rule with the pattern \<^verbatim>\<open>(\<close> and one file, and
  \<open>evaluateRules\<close> throws instead of returning.
\<close>

theorem evaluateRules_invalid_pattern_throws:
  "evaluateRules literalRegExp [sampleFile] [badRule] = Inl (SyntaxError ''('')"
  by code_simp

lemma decide_iff:
  "(decide vs = Block \<longleftrightarrow> (\<exists>v \<in> set vs. vseverity v = Block))
   \<and> (decide vs = Warn \<longleftrightarrow>
        \<not> (\<exists>v \<in> set vs. vseverity v = Block) \<and> (\<exists>v \<in> set vs. vseverity v = Warn))
   \<and> (decide vs = Allow \<longleftrightarrow>
        \<not> (\<exists>v \<in> set vs. vseverity v = Block) \<and> \<not> (\<exists>v \<in> set vs. vseverity v = Warn))"
  by (auto simp: decide_def list_ex_iff)

lemma rulesLoop_ok:
  "rulesLoop rx f rs acc = Inr vs \<Longrightarrow>
   \<exists>ws. vs = acc @ ws
     \<and> (\<forall>r \<in> set rs. \<exists>us. evaluateRule rx r f = Inr us \<and> set us \<subseteq> set ws)
     \<and> (\<forall>v \<in> set ws. \<exists>r \<in> set rs. \<exists>us. evaluateRule rx r f = Inr us \<and> v \<in> set us)"
proof (induction rs arbitrary: acc)
  case Nil
  then show ?case by simp
next
  case (Cons r rs)
  from Cons.prems obtain us where us: "evaluateRule rx r f = Inr us"
    and rest: "rulesLoop rx f rs (acc @ us) = Inr vs"
    by (auto split: sum.splits)
  from Cons.IH [OF rest] obtain ws where ws: "vs = (acc @ us) @ ws"
    and fw: "\<forall>r \<in> set rs. \<exists>us. evaluateRule rx r f = Inr us \<and> set us \<subseteq> set ws"
    and bw: "\<forall>v \<in> set ws. \<exists>r \<in> set rs. \<exists>us. evaluateRule rx r f = Inr us \<and> v \<in> set us"
    by blast
  have "vs = acc @ (us @ ws)" using ws by simp
  moreover have "\<forall>r' \<in> set (r # rs). \<exists>us'. evaluateRule rx r' f = Inr us' \<and> set us' \<subseteq> set (us @ ws)"
  proof
    fix r' assume "r' \<in> set (r # rs)"
    then show "\<exists>us'. evaluateRule rx r' f = Inr us' \<and> set us' \<subseteq> set (us @ ws)"
      using us fw by (cases "r' = r") fastforce+
  qed
  moreover have "\<forall>v \<in> set (us @ ws). \<exists>r' \<in> set (r # rs). \<exists>us'. evaluateRule rx r' f = Inr us' \<and> v \<in> set us'"
    using us bw by auto
  ultimately show ?case by blast
qed

lemma filesLoop_ok:
  "filesLoop rx fs rs acc = Inr vs \<Longrightarrow>
   \<exists>ws. vs = acc @ ws
     \<and> (\<forall>f \<in> set fs. \<forall>r \<in> set rs. \<exists>us. evaluateRule rx r f = Inr us \<and> set us \<subseteq> set ws)
     \<and> (\<forall>v \<in> set ws. \<exists>f \<in> set fs. \<exists>r \<in> set rs. \<exists>us. evaluateRule rx r f = Inr us \<and> v \<in> set us)"
proof (induction fs arbitrary: acc)
  case Nil
  then show ?case by simp
next
  case (Cons f fs)
  from Cons.prems obtain a where a: "rulesLoop rx f rs acc = Inr a"
    and rest: "filesLoop rx fs rs a = Inr vs"
    by (auto split: sum.splits)
  from rulesLoop_ok [OF a] obtain w1 where w1: "a = acc @ w1"
    and fw1: "\<forall>r \<in> set rs. \<exists>us. evaluateRule rx r f = Inr us \<and> set us \<subseteq> set w1"
    and bw1: "\<forall>v \<in> set w1. \<exists>r \<in> set rs. \<exists>us. evaluateRule rx r f = Inr us \<and> v \<in> set us"
    by blast
  from Cons.IH [OF rest] obtain w2 where w2: "vs = a @ w2"
    and fw2: "\<forall>f \<in> set fs. \<forall>r \<in> set rs. \<exists>us. evaluateRule rx r f = Inr us \<and> set us \<subseteq> set w2"
    and bw2: "\<forall>v \<in> set w2. \<exists>f \<in> set fs. \<exists>r \<in> set rs. \<exists>us. evaluateRule rx r f = Inr us \<and> v \<in> set us"
    by blast
  have "vs = acc @ (w1 @ w2)" using w1 w2 by simp
  moreover have "\<forall>f' \<in> set (f # fs). \<forall>r \<in> set rs. \<exists>us. evaluateRule rx r f' = Inr us \<and> set us \<subseteq> set (w1 @ w2)"
  proof (intro ballI)
    fix f' r assume "f' \<in> set (f # fs)" "r \<in> set rs"
    then show "\<exists>us. evaluateRule rx r f' = Inr us \<and> set us \<subseteq> set (w1 @ w2)"
      using fw1 fw2 by (cases "f' = f") fastforce+
  qed
  moreover have "\<forall>v \<in> set (w1 @ w2). \<exists>f' \<in> set (f # fs). \<exists>r \<in> set rs. \<exists>us. evaluateRule rx r f' = Inr us \<and> v \<in> set us"
  proof
    fix v assume "v \<in> set (w1 @ w2)"
    then consider "v \<in> set w1" | "v \<in> set w2" by auto
    then show "\<exists>f' \<in> set (f # fs). \<exists>r \<in> set rs. \<exists>us. evaluateRule rx r f' = Inr us \<and> v \<in> set us"
    proof cases
      case 1
      with bw1 show ?thesis by auto
    next
      case 2
      with bw2 obtain f' where "f' \<in> set fs" "\<exists>r \<in> set rs. \<exists>us. evaluateRule rx r f' = Inr us \<and> v \<in> set us"
        by blast
      then show ?thesis by auto
    qed
  qed
  ultimately show ?case by blast
qed

text \<open>
  C2. Whenever \<open>evaluateRules\<close> returns, its decision is \<open>block\<close> exactly when some
  collected violation blocks, \<open>warn\<close> exactly when none blocks and some warns, and
  \<open>allow\<close> exactly when none does either. The collected violations are those of every
  file with every rule, so the decision is global: a blocking violation of any file
  with any rule is among them.
\<close>

theorem evaluateRules_decision:
  assumes "evaluateRules rx fs rs = Inr res"
  shows "(decision res = Block \<longleftrightarrow> (\<exists>v \<in> set (violations res). vseverity v = Block))
    \<and> (decision res = Warn \<longleftrightarrow>
         \<not> (\<exists>v \<in> set (violations res). vseverity v = Block)
         \<and> (\<exists>v \<in> set (violations res). vseverity v = Warn))
    \<and> (decision res = Allow \<longleftrightarrow>
         \<not> (\<exists>v \<in> set (violations res). vseverity v = Block)
         \<and> \<not> (\<exists>v \<in> set (violations res). vseverity v = Warn))
    \<and> (\<forall>f \<in> set fs. \<forall>r \<in> set rs.
          \<exists>us. evaluateRule rx r f = Inr us \<and> set us \<subseteq> set (violations res))
    \<and> (\<forall>v \<in> set (violations res). \<exists>f \<in> set fs. \<exists>r \<in> set rs.
          \<exists>us. evaluateRule rx r f = Inr us \<and> v \<in> set us)"
proof -
  from assms obtain vs where vs: "filesLoop rx fs rs [] = Inr vs"
    and res: "res = \<lparr>decision = decide vs, violations = vs\<rparr>"
    by (auto simp: evaluateRules_def split: sum.splits)
  from filesLoop_ok [OF vs] have
    fw: "\<forall>f \<in> set fs. \<forall>r \<in> set rs. \<exists>us. evaluateRule rx r f = Inr us \<and> set us \<subseteq> set vs"
    and bw: "\<forall>v \<in> set vs. \<exists>f \<in> set fs. \<exists>r \<in> set rs. \<exists>us. evaluateRule rx r f = Inr us \<and> v \<in> set us"
    by auto
  from res have d: "decision res = decide vs" and v: "violations res = vs" by simp_all
  show ?thesis
    unfolding d v using decide_iff [of vs] fw bw by blast
qed

theorem evaluateRules_decision_witness:
  "evaluateRules literalRegExp [sampleFile] [secretRule] =
     Inr \<lparr>decision = Block, violations =
       [\<lparr>vrule = ''secret'', vfile = ''config.js'', vseverity = Block,
         vmessage = ''No tokens''\<rparr>]\<rparr>
   \<and> (\<exists>us. evaluateRule literalRegExp secretRule sampleFile = Inr us)"
proof -
  have e: "evaluateRules literalRegExp [sampleFile] [secretRule] =
      Inr \<lparr>decision = Block, violations =
        [\<lparr>vrule = ''secret'', vfile = ''config.js'', vseverity = Block,
          vmessage = ''No tokens''\<rparr>]\<rparr>"
    by code_simp
  from evaluateRules_decision [OF e]
  have "\<exists>us. evaluateRule literalRegExp secretRule sampleFile = Inr us"
    by auto
  with e show ?thesis
    by simp
qed

text \<open>
  C10. A rule of type \<open>custom\<close> yields no violation on any file and never throws, enabled
  or not, and \<open>evaluateRules\<close> gives the same outcome with the rule as without it.
\<close>

theorem evaluateRule_custom:
  assumes "kind r = Custom ev cfg"
  shows "evaluateRule rx r f = Inr []
    \<and> evaluateRules rx fs (rs1 @ r # rs2) = evaluateRules rx fs (rs1 @ rs2)"
proof -
  have "evaluateRule rx r g = Inr []" for g
    using assms by (simp add: evaluateRule_def)
  then show ?thesis
    by (simp add: evaluateRules_def filesLoop_skip)
qed

theorem evaluateRule_custom_witness:
  "evaluateRule literalRegExp customRule sampleFile = Inr []
   \<and> evaluateRules literalRegExp [sampleFile] [secretRule, customRule] =
       evaluateRules literalRegExp [sampleFile] [secretRule]"
proof -
  have k: "kind customRule = Custom ''myEvaluator'' []"
    by (simp add: customRule_def)
  from evaluateRule_custom [OF k, of literalRegExp sampleFile "[sampleFile]" "[secretRule]" "[]"]
  show ?thesis by simp
qed

lemma compileAll_Inr:
  "compileAll rx ps = Inr ts \<Longrightarrow> ts = map (\<lambda>p. the (rx p)) ps"
  by (induction ps arbitrary: ts) (auto split: option.splits sum.splits)

lemma list_ex_compiled:
  "list_ex (\<lambda>t. t x) (map (\<lambda>p. the (rx p)) ps) = (\<exists>p \<in> set ps. the (rx p) x)"
  by (simp add: list_ex_iff)

lemma violation_fields:
  "vrule (violation r f fb) = rule_id r \<and> vfile (violation r f fb) = path f
   \<and> vseverity (violation r f fb) = severity r
   \<and> vmessage (violation r f fb) = orElse (description r) fb"
  by (simp add: violation_def)

text \<open>
  C7, as the code has it. One rule yields at most one violation for one file, whatever
  the number of matches. The violation's message is the rule's description when the
  rule has a non-empty one; only without a description does the message of a multi-match
  rule carry the list of the keywords found (suspicious-keywords) or the number of
  matching lines (potential-secret, line-pattern).
\<close>

theorem evaluateRule_at_most_one:
  assumes "evaluateRule rx r f = Inr vs"
  shows "length vs \<le> 1
    \<and> (\<forall>v \<in> set vs.
         vrule v = rule_id r \<and> vfile v = path f \<and> vseverity v = severity r
         \<and> (\<forall>d. description r = Some d \<and> d \<noteq> [] \<longrightarrow> vmessage v = d)
         \<and> (description r = None \<or> description r = Some [] \<longrightarrow>
              (\<forall>ks. kind r = SuspiciousKeywords ks \<longrightarrow>
                 vmessage v = ''Suspicious keywords found: '' @ join '', ''
                   (filter (\<lambda>k. \<exists>c \<in> set (addedContent f).
                                   includesStr (toLowerCase c) (toLowerCase k)) ks))
              \<and> (\<forall>ps. kind r = PotentialSecret ps \<longrightarrow>
                 vmessage v = ''Potential secrets detected: '' @
                   showNat (length (filter (\<lambda>l. \<exists>p \<in> set ps. the (rx p) l) (addedContent f)))
                   @ '' occurrence(s)'')
              \<and> (\<forall>p m. kind r = LinePattern p m \<longrightarrow>
                 vmessage v = ''Line pattern matched: '' @
                   showNat (length (filter
                     (\<lambda>l. (m = MatchAdded \<longrightarrow> ltype l = Added)
                          \<and> (m = MatchRemoved \<longrightarrow> ltype l = Removed)
                          \<and> the (rx p) (content l)) (allLines f)))
                   @ '' occurrence(s)'')))"
proof -
  have en: "enabled r \<or> vs = []"
    using assms by (auto simp: evaluateRule_def split: if_splits)
  have msg: "(\<forall>d. description r = Some d \<and> d \<noteq> [] \<longrightarrow> orElse (description r) fb = d)
     \<and> (description r = None \<or> description r = Some [] \<longrightarrow> orElse (description r) fb = fb)" for fb
    by (auto simp: orElse_def)
  show ?thesis
  proof (cases "enabled r")
    case False
    with en show ?thesis by simp
  next
    case True
    show ?thesis
    proof (cases "kind r")
      case (SensitiveFile ps)
      with assms True show ?thesis
        using msg by (auto simp: evaluateRule_def evaluateSensitiveFileRule_def violation_fields
            split: sum.splits if_splits)
    next
      case (LargeChange n)
      with assms True show ?thesis
        using msg by (auto simp: evaluateRule_def evaluateLargeChangeRule_def violation_fields Let_def
            split: if_splits)
    next
      case (SuspiciousKeywords ks)
      have eq: "list_ex (\<lambda>c. includesStr c k') (map toLowerCase (addedContent f))
          = (\<exists>c \<in> set (addedContent f). includesStr (toLowerCase c) k')" for k'
        by (simp add: list_ex_iff)
      from assms True SuspiciousKeywords show ?thesis
        using msg by (auto simp: evaluateRule_def evaluateSuspiciousKeywordsRule_def violation_fields
            Let_def eq split: if_splits)
    next
      case (PotentialSecret ps)
      from assms True PotentialSecret obtain ts where ts: "compileAll rx ps = Inr ts"
        by (auto simp: evaluateRule_def evaluatePotentialSecretRule_def split: sum.splits)
      from compileAll_Inr [OF ts] have ts': "ts = map (\<lambda>p. the (rx p)) ps" .
      from assms True PotentialSecret ts show ?thesis
        using msg by (auto simp: evaluateRule_def evaluatePotentialSecretRule_def violation_fields
            Let_def ts' list_ex_compiled split: if_splits)
    next
      case (LargeMigration n ps)
      with assms True show ?thesis
        using msg by (auto simp: evaluateRule_def evaluateLargeMigrationRule_def violation_fields
            Let_def split: sum.splits if_splits)
    next
      case (PathPattern p m)
      with assms True show ?thesis
        using msg by (auto simp: evaluateRule_def evaluatePathPatternRule_def violation_fields
            Let_def split: option.splits if_splits)
    next
      case (LinePattern p m)
      from assms True LinePattern obtain t where t: "rx p = Some t"
        by (auto simp: evaluateRule_def evaluateLinePatternRule_def split: option.splits)
      define found where "found = map (\<lambda>line. preview (content line))
          (filter (\<lambda>line. t (content line))
            (filter (\<lambda>line. if m = MatchAdded then ltype line = Added
                             else if m = MatchRemoved then ltype line = Removed else True)
              (allLines f)))"
      have cnt: "length (map (\<lambda>line. preview (content line))
            (filter (\<lambda>line. t (content line))
              (filter (\<lambda>line. if m = MatchAdded then ltype line = Added
                               else if m = MatchRemoved then ltype line = Removed else True) xs)))
          = length (filter (\<lambda>l. (m = MatchAdded \<longrightarrow> ltype l = Added)
                       \<and> (m = MatchRemoved \<longrightarrow> ltype l = Removed) \<and> t (content l)) xs)" for xs
        by (induction xs) auto
      have len: "length found = length (filter (\<lambda>l. (m = MatchAdded \<longrightarrow> ltype l = Added)
                       \<and> (m = MatchRemoved \<longrightarrow> ltype l = Removed) \<and> the (rx p) (content l))
                    (allLines f))"
        unfolding found_def using cnt [of "allLines f"] t by simp
      have vs: "vs = (if length found > 0
                      then [violation r f (''Line pattern matched: '' @ showNat (length found)
                              @ '' occurrence(s)'')]
                      else [])"
        using assms True LinePattern t unfolding found_def
        by (simp add: evaluateRule_def evaluateLinePatternRule_def Let_def)
      show ?thesis
        using msg LinePattern len
        by (auto simp: violation_fields vs)
    next
      case (FileSize n)
      with assms True show ?thesis
        using msg by (auto simp: evaluateRule_def evaluateFileSizeRule_def violation_fields Let_def
            split: if_splits)
    next
      case (Custom ev cfg)
      with assms True show ?thesis
        by (auto simp: evaluateRule_def)
    qed
  qed
qed

theorem evaluateRule_at_most_one_witness:
  "length [\<lparr>vrule = ''secret'', vfile = ''config.js'', vseverity = Block,
            vmessage = ''Potential secrets detected: 2 occurrence(s)''\<rparr>] \<le> 1
   \<and> evaluateRule literalRegExp (secretRule\<lparr>description := None\<rparr>) sampleFile =
       Inr [\<lparr>vrule = ''secret'', vfile = ''config.js'', vseverity = Block,
             vmessage = ''Potential secrets detected: 2 occurrence(s)''\<rparr>]"
proof -
  have e: "evaluateRule literalRegExp (secretRule\<lparr>description := None\<rparr>) sampleFile =
      Inr [\<lparr>vrule = ''secret'', vfile = ''config.js'', vseverity = Block,
            vmessage = ''Potential secrets detected: 2 occurrence(s)''\<rparr>]"
    by code_simp
  from evaluateRule_at_most_one [OF e] e show ?thesis
    by simp
qed

text \<open>
  C7 as stated fails: a potential-secret rule with a description, on a file with two
  matching added lines, yields one violation whose message is the description and holds
  neither the count nor the matches.
\<close>

theorem evaluateRule_message_is_description:
  "evaluateRule literalRegExp secretRule sampleFile =
     Inr [\<lparr>vrule = ''secret'', vfile = ''config.js'', vseverity = Block,
           vmessage = ''No tokens''\<rparr>]
   \<and> length (filter (\<lambda>l. the (literalRegExp ''token'') l) (addedContent sampleFile)) = 2"
  by code_simp

section \<open>Properties of the policy operations\<close>

lemma mapSet_keys:
  "map fst (mapSet m k v) = (if k \<in> set (map fst m) then map fst m else map fst m @ [k])"
  by (induction m) (force split: if_splits)+

lemma mapSet_map_of: "map_of (mapSet m k v) = (map_of m)(k \<mapsto> v)"
  by (induction m) auto

lemma mergeLoop_concat:
  "mergeLoop ps = fold (\<lambda>r m. mapSet m (rule_id r) r) (concat (map rules ps)) []"
proof -
  have "fold (\<lambda>policy ruleMap. fold (\<lambda>r m. mapSet m (rule_id r) r) (rules policy) ruleMap) ps m0
      = fold (\<lambda>r m. mapSet m (rule_id r) r) (concat (map rules ps)) m0" for m0
    by (induction ps arbitrary: m0) simp_all
  then show ?thesis by (simp add: mergeLoop_def)
qed

lemma fold_mapSet_keys:
  "map fst (fold (\<lambda>r m. mapSet m (rule_id r) r) xs []) = rev (remdups (rev (map rule_id xs)))"
  by (induction xs rule: rev_induct) (auto simp: mapSet_keys)

lemma fold_mapSet_map_of:
  "map_of (fold (\<lambda>r m. mapSet m (rule_id r) r) xs []) k = find (\<lambda>x. rule_id x = k) (rev xs)"
  by (induction xs rule: rev_induct) (auto simp: mapSet_map_of)

lemma fold_mapSet_entries:
  assumes "(k, r) \<in> set (fold (\<lambda>r m. mapSet m (rule_id r) r) xs [])"
  shows "find (\<lambda>x. rule_id x = k) (rev xs) = Some r \<and> rule_id r = k"
proof -
  let ?m = "fold (\<lambda>r m. mapSet m (rule_id r) r) xs []"
  have "distinct (map fst ?m)" by (simp add: fold_mapSet_keys)
  with assms have "map_of ?m k = Some r" by simp
  then have f: "find (\<lambda>x. rule_id x = k) (rev xs) = Some r" by (simp add: fold_mapSet_map_of)
  then have "rule_id r = k" by (auto simp: find_Some_iff)
  with f show ?thesis by simp
qed

text \<open>
  C8. Merging no policy gives the default policy. Merging \<open>p0 # ps\<close> keeps the id,
  name, description and version of \<open>p0\<close>; the merged rules have pairwise different ids,
  which are the ids of all the rules of all the policies in the order of their first
  occurrence; and each merged rule is the last rule with its id in argument order, that
  is the later policy's version.
\<close>

theorem mergePolicies_override:
  "mergePolicies t1 t2 [] = createDefaultPolicy t1 t2 None
   \<and> (let m = mergePolicies t1 t2 (p0 # ps); every = concat (map rules (p0 # ps)) in
        policy_id m = policy_id p0 \<and> policy_name m = policy_name p0
        \<and> policy_description m = policy_description p0 \<and> version m = version p0
        \<and> distinct (map rule_id (rules m))
        \<and> map rule_id (rules m) = rev (remdups (rev (map rule_id every)))
        \<and> (\<forall>r \<in> set (rules m). find (\<lambda>x. rule_id x = rule_id r) (rev every) = Some r))"
proof -
  define every where "every = concat (map rules (p0 # ps))"
  define m where "m = fold (\<lambda>r m. mapSet m (rule_id r) r) every []"
  define out where "out = mergePolicies t1 t2 (p0 # ps)"
  have rs: "rules out = map snd m"
    by (simp add: out_def m_def every_def mergePolicies_def mergeLoop_concat)
  have ent: "find (\<lambda>x. rule_id x = k) (rev every) = Some r \<and> rule_id r = k"
    if "(k, r) \<in> set m" for k r
    using that unfolding m_def by (rule fold_mapSet_entries)
  have "rule_id (snd e) = fst e" if "e \<in> set m" for e
    using ent [of "fst e" "snd e"] that by simp
  then have ids: "map rule_id (map snd m) = map fst m"
    by simp
  have keys: "map rule_id (rules out) = rev (remdups (rev (map rule_id every)))"
  proof -
    have "map rule_id (rules out) = map fst m"
      unfolding rs by (rule ids)
    also have "\<dots> = rev (remdups (rev (map rule_id every)))"
      unfolding m_def by (rule fold_mapSet_keys)
    finally show ?thesis .
  qed
  have dist: "distinct (map rule_id (rules out))"
    unfolding keys by simp
  have last: "\<forall>r \<in> set (rules out). find (\<lambda>x. rule_id x = rule_id r) (rev every) = Some r"
  proof
    fix r assume "r \<in> set (rules out)"
    then obtain k where "(k, r) \<in> set m"
      unfolding rs by auto
    from ent [OF this] show "find (\<lambda>x. rule_id x = rule_id r) (rev every) = Some r"
      by simp
  qed
  have meta: "policy_id out = policy_id p0 \<and> policy_name out = policy_name p0
      \<and> policy_description out = policy_description p0 \<and> version out = version p0"
    by (simp add: out_def mergePolicies_def)
  have empty: "mergePolicies t1 t2 [] = createDefaultPolicy t1 t2 None"
    by (simp add: mergePolicies_def)
  have "policy_id out = policy_id p0 \<and> policy_name out = policy_name p0
        \<and> policy_description out = policy_description p0 \<and> version out = version p0
        \<and> distinct (map rule_id (rules out))
        \<and> map rule_id (rules out) = rev (remdups (rev (map rule_id every)))
        \<and> (\<forall>r \<in> set (rules out). find (\<lambda>x. rule_id x = rule_id r) (rev every) = Some r)"
    using meta dist keys last by (simp only: simp_thms)
  then show ?thesis
    unfolding Let_def out_def every_def using empty by (rule conjI [rotated])
qed

theorem mergePolicies_override_witness:
  "map rule_id (rules (mergePolicies ''t1'' ''t2'' [policyA, policyB])) = [''large'', ''secret'']
   \<and> find (\<lambda>x. rule_id x = ''large'') (rev (concat (map rules [policyA, policyB]))) =
       Some largeBlock"
proof -
  have ids: "rev (remdups (rev (map rule_id (concat (map rules [policyA, policyB]))))) =
      [''large'', ''secret'']"
    by (simp add: policyA_def policyB_def largeWarn_def largeBlock_def secretRule_def)
  have f: "find (\<lambda>x. rule_id x = ''large'') (rev (concat (map rules [policyA, policyB]))) =
      Some largeBlock"
    by (simp add: policyA_def policyB_def largeWarn_def largeBlock_def secretRule_def)
  from mergePolicies_override [of "''t1''" "''t2''" policyA "[policyB]"]
  have "map rule_id (rules (mergePolicies ''t1'' ''t2'' [policyA, policyB])) =
      rev (remdups (rev (map rule_id (concat (map rules [policyA, policyB])))))"
    by (simp only: Let_def)
  with ids f show ?thesis
    by simp
qed

lemma truthy_iff:
  "truthy v \<longleftrightarrow> v \<notin> {None, Some JNull, Some (JBool False), Some (JNumber 0), Some (JString [])}"
  by (cases v rule: truthy.cases) auto

lemma isArray_iff: "isArray v \<longleftrightarrow> (\<exists>xs. v = Some (JArray xs))"
  by (cases v rule: isArray.cases) auto

lemma ball_three: "(\<forall>k \<in> {a, b, c}. P k) \<longleftrightarrow> P a \<and> P b \<and> P c"
  by blast

lemma bex_three: "(\<exists>k \<in> {a, b, c}. P k) \<longleftrightarrow> P a \<or> P b \<or> P c"
  by blast

text \<open>
  C9, as the code has it. For a document other than \<^verbatim>\<open>null\<close> (given as an object,
  or as a text that parses), \<open>loadPolicy\<close> throws the format error exactly when the id,
  the name or the version is missing or falsy (\<^verbatim>\<open>null\<close>, \<^verbatim>\<open>false\<close>, \<open>0\<close>, the
  empty string) or \<open>rules\<close> is not an array; otherwise it returns the document
  unchanged; and it throws nothing else.
\<close>

theorem loadPolicy_format:
  assumes "parseIfString parse j = Inr data" and "data \<noteq> JNull"
  shows "(loadPolicy parse j = Inl (Error ''Invalid policy format: missing required fields'') \<longleftrightarrow>
           (\<exists>k \<in> {''id'', ''name'', ''version''}.
              getProp data k \<in> {None, Some JNull, Some (JBool False), Some (JNumber 0),
                                Some (JString [])})
           \<or> (\<forall>xs. getProp data ''rules'' \<noteq> Some (JArray xs)))
    \<and> (loadPolicy parse j = Inr data \<longleftrightarrow>
           (\<forall>k \<in> {''id'', ''name'', ''version''}.
              getProp data k \<notin> {None, Some JNull, Some (JBool False), Some (JNumber 0),
                                Some (JString [])})
           \<and> (\<exists>xs. getProp data ''rules'' = Some (JArray xs)))
    \<and> (\<forall>e. loadPolicy parse j = Inl e \<longrightarrow>
           e = Error ''Invalid policy format: missing required fields'')"
proof -
  define A where "A = truthy (getProp data ''id'')"
  define B where "B = truthy (getProp data ''name'')"
  define C where "C = truthy (getProp data ''version'')"
  define D where "D = isArray (getProp data ''rules'')"
  have lp: "loadPolicy parse j =
      (if \<not> A \<or> \<not> B \<or> \<not> C \<or> \<not> D
       then Inl (Error ''Invalid policy format: missing required fields'') else Inr data)"
    using assms by (simp add: loadPolicy_def A_def B_def C_def D_def)
  have fa: "(getProp data ''id'' \<in> {None, Some JNull, Some (JBool False), Some (JNumber 0),
      Some (JString [])}) = (\<not> A)"
    unfolding A_def truthy_iff [of "getProp data ''id''"] by (rule not_not [symmetric])
  have fb: "(getProp data ''name'' \<in> {None, Some JNull, Some (JBool False), Some (JNumber 0),
      Some (JString [])}) = (\<not> B)"
    unfolding B_def truthy_iff [of "getProp data ''name''"] by (rule not_not [symmetric])
  have fc: "(getProp data ''version'' \<in> {None, Some JNull, Some (JBool False), Some (JNumber 0),
      Some (JString [])}) = (\<not> C)"
    unfolding C_def truthy_iff [of "getProp data ''version''"] by (rule not_not [symmetric])
  have fd: "(\<exists>xs. getProp data ''rules'' = Some (JArray xs)) = D"
    unfolding D_def by (rule isArray_iff [symmetric])
  have fd': "(\<forall>xs. getProp data ''rules'' \<noteq> Some (JArray xs)) = (\<not> D)"
    unfolding fd [symmetric] by blast
  have goal: "(loadPolicy parse j = Inl (Error ''Invalid policy format: missing required fields'') \<longleftrightarrow>
           (\<not> A \<or> \<not> B \<or> \<not> C) \<or> \<not> D)
    \<and> (loadPolicy parse j = Inr data \<longleftrightarrow> (\<not> \<not> A \<and> \<not> \<not> B \<and> \<not> \<not> C) \<and> D)
    \<and> (\<forall>e. loadPolicy parse j = Inl e \<longrightarrow>
           e = Error ''Invalid policy format: missing required fields'')"
    unfolding lp by (cases A; cases B; cases C; cases D) simp_all
  show ?thesis
    unfolding ball_three bex_three fa fb fc fd fd' by (rule goal)
qed

theorem loadPolicy_format_witness:
  "loadPolicy (\<lambda>s. None) goodDoc = Inr goodDoc"
proof -
  have h1: "parseIfString (\<lambda>s. None) goodDoc = Inr goodDoc"
    by (simp add: parseIfString_def goodDoc_def)
  have h2: "goodDoc \<noteq> JNull"
    by (simp add: goodDoc_def)
  from loadPolicy_format [OF h1 h2] show ?thesis
    by (simp add: goodDoc_def)
qed

text \<open>
  C9 as stated fails: a document that has all four fields, the id being the empty
  string, is refused with the format error.
\<close>

theorem loadPolicy_rejects_empty_id:
  "loadPolicy (\<lambda>s. None) emptyIdDoc =
     Inl (Error ''Invalid policy format: missing required fields'')
   \<and> getProp emptyIdDoc ''id'' = Some (JString [])
   \<and> getProp emptyIdDoc ''name'' = Some (JString ''P'')
   \<and> getProp emptyIdDoc ''version'' = Some (JString ''1.0.0'')
   \<and> getProp emptyIdDoc ''rules'' = Some (JArray [])"
  by (simp add: loadPolicy_def parseIfString_def emptyIdDoc_def)

end
